theory Spec2Isabelle
  imports Main "HOL-Library.Sublist"
begin

section \<open>Data model\<close>

text \<open>
  Values that travel between the combinator and the segment validators. A validator's
  \<^verbatim>\<open>safeParse\<close> takes an \<^verbatim>\<open>unknown\<close>: here it receives either one
  piece of the split (a string) or, for an index past the end of the split, JavaScript's
  \<^verbatim>\<open>undefined\<close>. \<open>Num\<close> stands for a value that is neither, a number (integers
  suffice here). A string is the list of its code units.
\<close>

datatype jsval = Undefined | Str string | Num int

text \<open>
  \<^verbatim>\<open>ZodSafeParseResult\<close>: \<^verbatim>\<open>{success: true, data}\<close> or
  \<^verbatim>\<open>{success: false, error}\<close>. Reading \<^verbatim>\<open>data\<close> off a failure gives
  \<^verbatim>\<open>undefined\<close>.
\<close>

datatype ('e, 'a) ZodSafeParseResult = Success 'a | Failure 'e

fun success :: "('e, 'a) ZodSafeParseResult \<Rightarrow> bool" where
  "success (Success v) = True"
| "success (Failure e) = False"

fun data :: "('e, jsval) ZodSafeParseResult \<Rightarrow> jsval" where
  "data (Success v) = v"
| "data (Failure e) = Undefined"

text \<open>
  A segment validator (\<^verbatim>\<open>core.$ZodTemplateLiteralPart & ZodType\<close>): the shape of raw
  text it contributes to a template literal, and its own \<^verbatim>\<open>safeParse\<close>. Both are
  opaque capabilities of the caller; \<^verbatim>\<open>safeParse\<close> has no effect and returns an outcome
  for every value (it does not throw).
\<close>

record 'e schema =
  pattern :: "string \<Rightarrow> bool"
  safeParse :: "jsval \<Rightarrow> ('e, jsval) ZodSafeParseResult"

text \<open>An element of the interleaved sequence: a segment validator or literal text.\<close>

datatype 'e part = Schema "'e schema" | Literal string

section \<open>Delimiter inserter\<close>

text \<open>
  \<^verbatim>\<open>insertDelimiterIntoTuple\<close>, lines 6-19. The \<^verbatim>\<open>for\<close> loop runs from
  \<open>i = 1\<close> while \<open>i < lst.length\<close> and pushes the delimiter and \<open>lst[i]\<close>; every
  read is in range.
\<close>

function insertDelimiterLoop :: "'a list \<Rightarrow> 'a \<Rightarrow> nat \<Rightarrow> 'a list \<Rightarrow> 'a list" where
  "insertDelimiterLoop lst delim i out =
     (if i < length lst then insertDelimiterLoop lst delim (Suc i) (out @ [delim, lst ! i])
      else out)"
  by pat_completeness auto
termination
  by (relation "measure (\<lambda>(lst, delim, i, out). length lst - i)") auto

definition insertDelimiterIntoTuple :: "'a list \<Rightarrow> 'a \<Rightarrow> 'a list" where
  "insertDelimiterIntoTuple lst delim =
     insertDelimiterLoop lst delim 1 (if length lst > 0 then [lst ! 0] else [])"

section \<open>String splitter\<close>

text \<open>
  \<^verbatim>\<open>splitIntoTemplateLiterals(str, delimiter) = str.split(delimiter)\<close>, lines 31-33,
  with the meaning the file itself gives it in the type \<^verbatim>\<open>SplitString\<close> (lines 62-74):
  an empty delimiter yields the characters of the string (none for the empty string);
  otherwise the string up to the first occurrence of the delimiter is the first piece and
  the rest after that occurrence is split in the same way, and a string without an
  occurrence (the empty string too) is a single piece.

  \<open>indexOf d s\<close> is the position of the first occurrence of \<open>d\<close> in \<open>s\<close>.
\<close>

fun indexOf :: "'a list \<Rightarrow> 'a list \<Rightarrow> nat option" where
  "indexOf d [] = (if d = [] then Some 0 else None)"
| "indexOf d (c # cs) =
     (if prefix d (c # cs) then Some 0 else map_option Suc (indexOf d cs))"

function splitLoop :: "'a list \<Rightarrow> 'a list \<Rightarrow> 'a list list" where
  "splitLoop d s =
     (if d = [] then [s]
      else case indexOf d s of
             None \<Rightarrow> [s]
           | Some j \<Rightarrow> take j s # splitLoop d (drop (j + length d) s))"
  by pat_completeness auto

termination
proof (relation "measure (\<lambda>(d, s). length s)")
  show "wf (measure (\<lambda>(d, s). length s))" by simp
next
  fix d s :: "'a list" and j
  assume "d \<noteq> []" and found: "indexOf d s = Some j"
  have "indexOf d t = Some k \<Longrightarrow> k + length d \<le> length t" for t k
  proof (induction t arbitrary: k)
    case Nil
    then show ?case by (simp split: if_splits)
  next
    case (Cons c cs)
    show ?case
    proof (cases "prefix d (c # cs)")
      case True
      with Cons.prems have "k = 0" by simp
      with prefix_length_le [OF True] show ?thesis by simp
    next
      case False
      with Cons.prems obtain k' where "indexOf d cs = Some k'" "k = Suc k'" by auto
      with Cons.IH show ?thesis by fastforce
    qed
  qed
  with found have le: "j + length d \<le> length s" by simp
  from \<open>d \<noteq> []\<close> obtain n where "length d = Suc n"
    by (cases d) auto
  with le show "((d, drop (j + length d) s), (d, s)) \<in> measure (\<lambda>(d, s). length s)"
    by simp
qed

definition splitIntoTemplateLiterals :: "'a list \<Rightarrow> 'a list \<Rightarrow> 'a list list" where
  "splitIntoTemplateLiterals str delimiter =
     (if delimiter = [] then map (\<lambda>c. [c]) str else splitLoop delimiter str)"

section \<open>Per-segment validator runner\<close>

text \<open>
  \<^verbatim>\<open>unparsedValues[i]\<close>: the piece at index \<open>i\<close>, or \<^verbatim>\<open>undefined\<close> when the
  index is past the end of the array.
\<close>

definition at_index :: "string list \<Rightarrow> nat \<Rightarrow> jsval" where
  "at_index unparsedValues i =
     (if i < length unparsedValues then Str (unparsedValues ! i) else Undefined)"

text \<open>
  \<^verbatim>\<open>mapSafeParse\<close>, lines 36-41:
  \<^verbatim>\<open>parts.map((schema, i) => schema.safeParse(unparsedValues[i]))\<close>.
\<close>

definition mapSafeParse ::
  "'e schema list \<Rightarrow> string list \<Rightarrow> ('e, jsval) ZodSafeParseResult list" where
  "mapSafeParse parts unparsedValues =
     map (\<lambda>(i, schema). safeParse schema (at_index unparsedValues i)) (enumerate 0 parts)"


section \<open>Structural matcher and refinement of the validator framework\<close>

text \<open>The optional message configuration handed to the framework (absent: \<open>None\<close>).\<close>

type_synonym params = "string option"

text \<open>
  Modelled from the spec: the failure kinds of a composite outcome (section 7, the framework's
  issue objects are not among the sources). A structural mismatch carries the
  structural-error configuration, a segment validation failure the failing positions with
  each segment's own error, a predicate rejection the predicate-error configuration.
\<close>

datatype 'e issue =
    StructuralMismatch params
  | SegmentValidationFailure "(nat \<times> 'e) list"
  | PredicateRejection params

text \<open>
  Modelled from the spec: the structural matcher behind \<^verbatim>\<open>z.templateLiteral\<close>, which
  is not among the sources (section 4.2): the string is a concatenation of segment-shaped
  pieces with the exact literal text between them. A schema part may take any prefix that
  has its shape.
\<close>

fun matches :: "'e part list \<Rightarrow> string \<Rightarrow> bool" where
  "matches [] s = (s = [])"
| "matches (Literal l # ps) s = (prefix l s \<and> matches ps (drop (length l) s))"
| "matches (Schema p # ps) s =
     list_ex (\<lambda>k. pattern p (take k s) \<and> matches ps (drop k s)) [0..<Suc (length s)]"

text \<open>
  Modelled from the spec: \<^verbatim>\<open>z.templateLiteral(parts, params)\<close>, not among the sources
  (section 4.2 and the state machine of section 4.5): a string that has the shape passes,
  any other is a structural mismatch reported with the configuration given. The value of
  a string that passes is the string: it is the value the callback of the source is handed
  as \<^verbatim>\<open>compositeValue\<close> and splits (lines 93-94).
\<close>

definition templateLiteral ::
  "'e part list \<Rightarrow> params \<Rightarrow> string \<Rightarrow> ('e issue, string) ZodSafeParseResult" where
  "templateLiteral parts templateLiteralParams input =
     (if matches parts input then Success input
      else Failure (StructuralMismatch templateLiteralParams))"

text \<open>
  Modelled from the spec: \<^verbatim>\<open>.refine(fn, params)\<close> and the \<^verbatim>\<open>safeParse\<close> entry
  point of the refined validator, not among the sources (state machine of section 4.5,
  propagation policy of section 7). A failure of the refined validator is final and the
  callback is not run. Otherwise the callback runs on the value: an exception it throws
  leaves the call (\<open>Inl\<close>), \<^verbatim>\<open>false\<close> is the single failure configured by
  \<open>params\<close>, and \<^verbatim>\<open>true\<close> is a success. The callback of the source answers with a
  boolean and nothing else (lines 96-100), so a success has no value to carry but the one
  the callback was run on. The callback may have effects of its own, on a state \<open>'s\<close> of
  the caller.
\<close>

definition refine ::
  "(string \<Rightarrow> ('e issue, 'v) ZodSafeParseResult) \<Rightarrow> ('v \<Rightarrow> 's \<Rightarrow> ('x + bool) \<times> 's) \<Rightarrow>
     params \<Rightarrow> string \<Rightarrow> 's \<Rightarrow> ('x + ('e issue, 'v) ZodSafeParseResult) \<times> 's" where
  "refine base fn checkParams input s =
     (case base input of
        Failure e \<Rightarrow> (Inr (Failure e), s)
      | Success v \<Rightarrow>
          (case fn v s of
             (Inl x, s') \<Rightarrow> (Inl x, s')
           | (Inr ok, s') \<Rightarrow>
               (Inr (if ok then Success v else Failure (PredicateRejection checkParams)), s')))"

section \<open>Cross-field refiner and composite validator\<close>

text \<open>
  The callback handed to \<^verbatim>\<open>refine\<close>, lines 93-101. The caller's predicate
  \<open>check\<close> takes the decoded tuple; it may throw (\<open>Inl\<close>) and may have effects on the
  caller's state. Nothing here catches what it throws.
\<close>

definition refinement ::
  "'e schema list \<Rightarrow> string \<Rightarrow> (jsval list \<Rightarrow> 's \<Rightarrow> ('x + bool) \<times> 's) \<Rightarrow>
     string \<Rightarrow> 's \<Rightarrow> ('x + bool) \<times> 's" where
  "refinement parts delim check compositeValue s =
     (let unparsedValues = splitIntoTemplateLiterals compositeValue delim;
          results = mapSafeParse parts unparsedValues
      in if \<not> list_all success results then (Inr False, s)
         else check (map data results) s)"

text \<open>
  \<^verbatim>\<open>refineTemplateLiteral\<close>, lines 80-102. The result is the composite validator;
  applied to an input string and the caller's state it is one \<^verbatim>\<open>safeParse\<close> call.
\<close>

definition refineTemplateLiteral ::
  "'e schema list \<Rightarrow> string \<Rightarrow> (jsval list \<Rightarrow> 's \<Rightarrow> ('x + bool) \<times> 's) \<Rightarrow> params \<Rightarrow> params \<Rightarrow>
     string \<Rightarrow> 's \<Rightarrow> ('x + ('e issue, string) ZodSafeParseResult) \<times> 's" where
  "refineTemplateLiteral parts delim check templateLiteralParams checkParams =
     (let partsWithSeparators = insertDelimiterIntoTuple (map Schema parts) (Literal delim)
      in refine (templateLiteral partsWithSeparators templateLiteralParams)
           (refinement parts delim check) checkParams)"

section \<open>Validators and predicates of the edge-case tests\<close>

text \<open>
  Segment validators are values the caller supplies; errors are given as messages.
  \<open>StringSchema\<close> is \<^verbatim>\<open>z.string()\<close> of the edge-case tests, the \<open>String\<close>
  validator of scenarios 2 to 4: any text has its shape, any string is accepted as it is,
  and a value that is not a string is rejected.
\<close>

definition StringSchema :: "string schema" where
  "StringSchema =
     \<lparr> pattern = (\<lambda>s. True),
       safeParse = (\<lambda>v. case v of Str s \<Rightarrow> Success (Str s) | _ \<Rightarrow> Failure ''expected string'') \<rparr>"

text \<open>
  An optional string segment: as \<open>StringSchema\<close>, but a missing value is accepted too
  and passed on as it is.
\<close>

definition OptionalStringSchema :: "string schema" where
  "OptionalStringSchema =
     \<lparr> pattern = (\<lambda>s. True),
       safeParse = (\<lambda>v. case v of Num n \<Rightarrow> Failure ''expected string'' | _ \<Rightarrow> Success v) \<rparr>"

text \<open>
  Predicates of the edge-case tests: \<^verbatim>\<open>() => true\<close> (test 2 and others), the one
  that throws (test 5, \<open>x\<close> is what it throws), and that of test 12,
  \<^verbatim>\<open>(values) => { const [a, b] = values; return a === b; }\<close>, where destructuring
  past the end of the tuple gives \<^verbatim>\<open>undefined\<close>. None of them has an effect. The
  last one is a predicate that records each invocation, by counting it.
\<close>

definition always_true :: "jsval list \<Rightarrow> 's \<Rightarrow> ('x + bool) \<times> 's" where
  "always_true vals s = (Inr True, s)"

definition always_throws :: "'x \<Rightarrow> jsval list \<Rightarrow> 's \<Rightarrow> ('x + bool) \<times> 's" where
  "always_throws x vals s = (Inl x, s)"

definition element :: "jsval list \<Rightarrow> nat \<Rightarrow> jsval" where
  "element values i = (if i < length values then values ! i else Undefined)"

definition same_parts :: "jsval list \<Rightarrow> 's \<Rightarrow> ('x + bool) \<times> 's" where
  "same_parts values s = (Inr (element values 0 = element values 1), s)"

definition counting :: "jsval list \<Rightarrow> nat \<Rightarrow> ('x + bool) \<times> nat" where
  "counting vals n = (Inr True, Suc n)"

section \<open>Properties of the delimiter inserter\<close>

declare insertDelimiterLoop.simps [simp del] splitLoop.simps [simp del]

lemma insertDelimiterLoop_eq:
  "insertDelimiterLoop lst delim i out = out @ concat (map (\<lambda>x. [delim, x]) (drop i lst))"
proof (induction lst delim i out rule: insertDelimiterLoop.induct)
  case (1 lst delim i out)
  show ?case
  proof (cases "i < length lst")
    case True
    then have "drop i lst = lst ! i # drop (Suc i) lst"
      by (simp add: Cons_nth_drop_Suc)
    with True "1.IH" show ?thesis
      by (subst insertDelimiterLoop.simps) simp
  next
    case False
    then show ?thesis by (subst insertDelimiterLoop.simps) simp
  qed
qed

lemma insertDelimiterIntoTuple_Nil: "insertDelimiterIntoTuple [] delim = []"
  by (simp add: insertDelimiterIntoTuple_def insertDelimiterLoop_eq)

lemma insertDelimiterIntoTuple_Cons:
  "insertDelimiterIntoTuple (x # xs) delim = x # concat (map (\<lambda>y. [delim, y]) xs)"
  by (simp add: insertDelimiterIntoTuple_def insertDelimiterLoop_eq)

lemma length_interleave: "length (concat (map (\<lambda>y. [delim, y]) xs)) = 2 * length xs"
  by (induction xs) simp_all

lemma nth_interleave:
  "k < length xs \<Longrightarrow>
     concat (map (\<lambda>y. [delim, y]) xs) ! (2 * k) = delim \<and>
     concat (map (\<lambda>y. [delim, y]) xs) ! Suc (2 * k) = xs ! k"
proof (induction xs arbitrary: k)
  case Nil
  then show ?case by simp
next
  case (Cons x xs)
  then show ?case by (cases k) simp_all
qed

text \<open>
  Claim C9. For every list \<open>lst\<close> of \<open>n\<close> elements and every separator, the
  delimiter inserter returns (it is a total function) a list of \<open>2n - 1\<close> elements when
  \<open>n > 0\<close> and of none when \<open>n = 0\<close>; the element at the even index \<open>2k\<close> is the
  original element \<open>k\<close>, so order and identity are kept, and the element at every odd
  index, between two adjacent originals, is the separator. For \<open>n = 1\<close> that is the single
  element and no separator.
\<close>

theorem insertDelimiterIntoTuple_interleaved:
  "length (insertDelimiterIntoTuple lst delim) = (if lst = [] then 0 else 2 * length lst - 1) \<and>
   (\<forall>k < length lst. insertDelimiterIntoTuple lst delim ! (2 * k) = lst ! k) \<and>
   (\<forall>k. Suc k < length lst \<longrightarrow> insertDelimiterIntoTuple lst delim ! Suc (2 * k) = delim)"
proof (cases lst)
  case Nil
  then show ?thesis by (simp add: insertDelimiterIntoTuple_Nil)
next
  case (Cons x xs)
  let ?C = "concat (map (\<lambda>y. [delim, y]) xs)"
  have eq: "insertDelimiterIntoTuple (x # xs) delim = x # ?C"
    by (rule insertDelimiterIntoTuple_Cons)
  have len: "length (x # ?C) = 2 * length (x # xs) - 1"
    by (simp add: length_interleave)
  have even: "(x # ?C) ! (2 * k) = (x # xs) ! k" if "k < length (x # xs)" for k
  proof (cases k)
    case 0
    then show ?thesis by simp
  next
    case (Suc k')
    with that have "k' < length xs" by simp
    from nth_interleave [OF this, of delim] Suc show ?thesis by simp
  qed
  have odd: "(x # ?C) ! Suc (2 * k) = delim" if "Suc k < length (x # xs)" for k
  proof -
    from that have "k < length xs" by simp
    from nth_interleave [OF this, of delim] show ?thesis by simp
  qed
  from len even odd show ?thesis
    unfolding Cons eq by simp
qed

theorem insertDelimiterIntoTuple_interleaved_witness:
  "length (insertDelimiterIntoTuple [''a'', ''b'', ''c''] '','') = 5 \<and>
   insertDelimiterIntoTuple [''a'', ''b'', ''c''] '','' ! 4 = ''c'' \<and>
   insertDelimiterIntoTuple [''a'', ''b'', ''c''] '','' ! 3 = '',''"
  using insertDelimiterIntoTuple_interleaved [of "[''a'', ''b'', ''c'']" "'',''"]
  by (auto dest: spec [of _ 2] spec [of _ 1])

section \<open>Properties of the string splitter\<close>

text \<open>
  Joining pieces with a delimiter is the concatenation of the interleaved sequence.
\<close>

lemma join_single: "concat (insertDelimiterIntoTuple [x] d) = x"
  by (simp add: insertDelimiterIntoTuple_Cons)

lemma join_Cons2:
  "concat (insertDelimiterIntoTuple (x # y # ys) d) =
     x @ d @ concat (insertDelimiterIntoTuple (y # ys) d)"
  by (simp add: insertDelimiterIntoTuple_Cons)

lemma indexOf_None_iff: "indexOf d s = None \<longleftrightarrow> \<not> sublist d s"
  by (induction s) (auto simp: sublist_Cons_right)

lemma prefix_short:
  assumes "prefix d (a @ b)" and "length d \<le> length a"
  shows "prefix d a"
proof -
  from assms(1) obtain zs where "a @ b = d @ zs" by (auto simp: prefix_def)
  then have "take (length d) (a @ b) = d" by simp
  with assms(2) have "take (length d) a = d" by simp
  then show ?thesis by (metis take_is_prefix)
qed

lemma first_occurrence_unique:
  assumes "d \<noteq> []" and "\<not> sublist d (p @ butlast d)"
  shows "indexOf d (p @ d @ rest) = Some (length p)"
  using assms(2)
proof (induction p)
  case Nil
  from assms(1) obtain c cs where "d @ rest = c # cs" by (cases d) auto
  moreover have "prefix d (d @ rest)" by simp
  ultimately show ?case by simp
next
  case (Cons c p)
  from Cons.prems have no: "\<not> prefix d ((c # p) @ butlast d)" and rec: "\<not> sublist d (p @ butlast d)"
    by (auto simp: sublist_Cons_right)
  have "\<not> prefix d ((c # p) @ d @ rest)"
  proof
    assume "prefix d ((c # p) @ d @ rest)"
    moreover have "d = butlast d @ [last d]"
      using assms(1) by simp
    ultimately have "prefix d (((c # p) @ butlast d) @ ([last d] @ rest))"
      by (metis append.assoc)
    moreover have "length d \<le> length ((c # p) @ butlast d)"
      using assms(1) by simp
    ultimately have "prefix d ((c # p) @ butlast d)" by (rule prefix_short)
    with no show False by simp
  qed
  with Cons.IH [OF rec] show ?case by simp
qed

lemma indexOf_Some:
  assumes "indexOf d s = Some j"
  shows "s = take j s @ d @ drop (j + length d) s"
    and "d \<noteq> [] \<Longrightarrow> \<not> sublist d (take j s @ butlast d)"
  using assms
proof (induction s arbitrary: j)
  case Nil
  {
    case 1
    then show ?case by (simp split: if_splits)
  next
    case 2
    then show ?case by (simp split: if_splits)
  }
next
  case (Cons c cs)
  {
    case 1
    show ?case
    proof (cases "prefix d (c # cs)")
      case True
      with 1 have "j = 0" by simp
      moreover from True obtain zs where "c # cs = d @ zs" by (auto simp: prefix_def)
      ultimately show ?thesis by simp
    next
      case False
      with 1 obtain k where k: "indexOf d cs = Some k" "j = Suc k" by auto
      from Cons.IH(1) [OF k(1)] k(2) show ?thesis by simp
    qed
  next
    case 2
    show ?case
    proof (cases "prefix d (c # cs)")
      case True
      with 2 have "j = 0" by simp
      moreover have "\<not> sublist d (butlast d)"
      proof
        assume "sublist d (butlast d)"
        then have "length d \<le> length (butlast d)" by (rule sublist_length_le)
        moreover from 2(1) obtain n where "length d = Suc n" by (cases d) auto
        ultimately show False by simp
      qed
      ultimately show ?thesis by simp
    next
      case False
      with 2 obtain k where k: "indexOf d cs = Some k" "j = Suc k" by auto
      from Cons.IH(2) [OF 2(1) k(1)] have rec: "\<not> sublist d (take k cs @ butlast d)" .
      have "\<not> prefix d (c # take k cs @ butlast d)"
      proof
        assume pre: "prefix d (c # take k cs @ butlast d)"
        have "cs = take k cs @ (butlast d @ [last d]) @ drop (k + length d) cs"
          using Cons.IH(1) [OF k(1)] 2(1) by simp
        then have "c # cs = (c # take k cs @ butlast d) @ ([last d] @ drop (k + length d) cs)"
          by simp
        then have "prefix (c # take k cs @ butlast d) (c # cs)"
          by (metis prefixI)
        with pre have "prefix d (c # cs)" by (rule prefix_order.trans)
        with False show False by simp
      qed
      with rec k(2) show ?thesis by (simp add: sublist_Cons_right)
    qed
  }
qed

lemma splitLoop_pieces:
  assumes "d \<noteq> []"
  shows "splitLoop d s \<noteq> [] \<and>
         concat (insertDelimiterIntoTuple (splitLoop d s) d) = s \<and>
         (\<forall>p \<in> set (butlast (splitLoop d s)). \<not> sublist d (p @ butlast d)) \<and>
         \<not> sublist d (last (splitLoop d s))"
  using assms
proof (induction d s rule: splitLoop.induct)
  case (1 d s)
  show ?case
  proof (cases "indexOf d s")
    case None
    with "1.prems" have "splitLoop d s = [s]" by (subst splitLoop.simps) simp
    moreover from None have "\<not> sublist d s" by (simp add: indexOf_None_iff)
    ultimately show ?thesis by (simp add: join_single)
  next
    case (Some j)
    let ?rest = "splitLoop d (drop (j + length d) s)"
    from Some "1.prems" have eq: "splitLoop d s = take j s # ?rest"
      by (subst splitLoop.simps) simp
    from "1.IH" [OF "1.prems" Some "1.prems"]
    have ne: "?rest \<noteq> []"
      and join: "concat (insertDelimiterIntoTuple ?rest d) = drop (j + length d) s"
      and inner: "\<forall>p \<in> set (butlast ?rest). \<not> sublist d (p @ butlast d)"
      and final: "\<not> sublist d (last ?rest)"
      by simp_all
    from ne obtain y ys where rest: "?rest = y # ys" by (cases ?rest) auto
    have "concat (insertDelimiterIntoTuple (take j s # ?rest) d) =
            take j s @ d @ drop (j + length d) s"
      using join unfolding rest by (simp only: join_Cons2)
    with indexOf_Some(1) [OF Some] have "concat (insertDelimiterIntoTuple (take j s # ?rest) d) = s"
      by simp
    moreover have "\<forall>p \<in> set (butlast (take j s # ?rest)). \<not> sublist d (p @ butlast d)"
      using inner ne indexOf_Some(2) [OF Some "1.prems"] by simp
    moreover have "\<not> sublist d (last (take j s # ?rest))"
      using final ne by simp
    ultimately show ?thesis unfolding eq by simp
  qed
qed

lemma splitLoop_unique:
  assumes "d \<noteq> []" and "pieces \<noteq> []"
    and "\<forall>p \<in> set (butlast pieces). \<not> sublist d (p @ butlast d)"
    and "\<not> sublist d (last pieces)"
  shows "splitLoop d (concat (insertDelimiterIntoTuple pieces d)) = pieces"
  using assms(2-)
proof (induction pieces rule: induct_list012)
  case 1
  then show ?case by simp
next
  case (2 p)
  then have "indexOf d p = None" by (simp add: indexOf_None_iff)
  with assms(1) show ?case by (subst splitLoop.simps) (simp add: join_single)
next
  case (3 p q qs)
  let ?tail = "concat (insertDelimiterIntoTuple (q # qs) d)"
  from 3(3-) have first: "\<not> sublist d (p @ butlast d)"
    and inner: "\<forall>r \<in> set (butlast (q # qs)). \<not> sublist d (r @ butlast d)"
    and final: "\<not> sublist d (last (q # qs))"
    by simp_all
  have found: "indexOf d (p @ d @ ?tail) = Some (length p)"
    using assms(1) first by (rule first_occurrence_unique)
  have "splitLoop d (p @ d @ ?tail) = p # splitLoop d ?tail"
    using assms(1) found by (subst splitLoop.simps) simp
  moreover have "splitLoop d ?tail = q # qs"
    using inner final by (intro 3(2)) simp_all
  ultimately show ?case by (simp only: join_Cons2)
qed


text \<open>
  Claim C6. With an empty delimiter the split is one piece per character of the string.
  With a non-empty delimiter the split is exactly the left-to-right, non-overlapping scan:
  a list of pieces is the result if and only if it is not empty, the pieces joined by the
  delimiter are the string again (so they are the substrings between the occurrences and
  the ends of the string, verbatim, empty ones included), every piece but the last is
  followed by the first occurrence of the delimiter from where the piece starts (the
  delimiter does not occur in the piece continued by all but the last character of the
  delimiter), and the last piece has no occurrence. In particular \<open>''ab''\<close> split on the
  empty delimiter is \<open>[''a'', ''b'']\<close>.
\<close>

theorem splitIntoTemplateLiterals_scan:
  "splitIntoTemplateLiterals str [] = map (\<lambda>c. [c]) str \<and>
   (delimiter \<noteq> [] \<longrightarrow>
      (splitIntoTemplateLiterals str delimiter = pieces \<longleftrightarrow>
         pieces \<noteq> [] \<and>
         concat (insertDelimiterIntoTuple pieces delimiter) = str \<and>
         (\<forall>p \<in> set (butlast pieces). \<not> sublist delimiter (p @ butlast delimiter)) \<and>
         \<not> sublist delimiter (last pieces))) \<and>
   splitIntoTemplateLiterals ''ab'' [] = [''a'', ''b'']"
proof (intro conjI impI)
  show "splitIntoTemplateLiterals str [] = map (\<lambda>c. [c]) str"
    by (simp add: splitIntoTemplateLiterals_def)
next
  assume ne: "delimiter \<noteq> []"
  then have eq: "splitIntoTemplateLiterals str delimiter = splitLoop delimiter str"
    by (simp add: splitIntoTemplateLiterals_def)
  show "splitIntoTemplateLiterals str delimiter = pieces \<longleftrightarrow>
          pieces \<noteq> [] \<and>
          concat (insertDelimiterIntoTuple pieces delimiter) = str \<and>
          (\<forall>p \<in> set (butlast pieces). \<not> sublist delimiter (p @ butlast delimiter)) \<and>
          \<not> sublist delimiter (last pieces)"
    unfolding eq
  proof
    assume "splitLoop delimiter str = pieces"
    with splitLoop_pieces [OF ne, of str] show
      "pieces \<noteq> [] \<and>
       concat (insertDelimiterIntoTuple pieces delimiter) = str \<and>
       (\<forall>p \<in> set (butlast pieces). \<not> sublist delimiter (p @ butlast delimiter)) \<and>
       \<not> sublist delimiter (last pieces)"
      by simp
  next
    assume "pieces \<noteq> [] \<and>
      concat (insertDelimiterIntoTuple pieces delimiter) = str \<and>
      (\<forall>p \<in> set (butlast pieces). \<not> sublist delimiter (p @ butlast delimiter)) \<and>
      \<not> sublist delimiter (last pieces)"
    with splitLoop_unique [OF ne, of pieces] show "splitLoop delimiter str = pieces"
      by auto
  qed
next
  show "splitIntoTemplateLiterals ''ab'' [] = [''a'', ''b'']"
    by (simp add: splitIntoTemplateLiterals_def)
qed

theorem splitIntoTemplateLiterals_scan_witness:
  "splitIntoTemplateLiterals ''a,,c,'' '','' = [''a'', [], ''c'', []] \<and>
   splitIntoTemplateLiterals ''abc'' [] = [''a'', ''b'', ''c'']"
proof -
  have "[''a'', [], ''c'', []] \<noteq> [] \<and>
        concat (insertDelimiterIntoTuple [''a'', [], ''c'', []] '','') = ''a,,c,'' \<and>
        (\<forall>p \<in> set (butlast [''a'', [], ''c'', []]). \<not> sublist '','' (p @ butlast '','')) \<and>
        \<not> sublist '','' (last [''a'', [], ''c'', []])"
    by code_simp
  with splitIntoTemplateLiterals_scan [of "''a,,c,''" "'',''" "[''a'', [], ''c'', []]"]
    splitIntoTemplateLiterals_scan [of "''abc''" "'',''" "[]"]
  show ?thesis by simp
qed

section \<open>Properties of the per-segment validator runner\<close>

lemma at_index_beyond: "length vals \<le> i \<Longrightarrow> at_index vals i = Undefined"
  by (simp add: at_index_def)



lemma mapSafeParse_zip:
  "mapSafeParse parts vals =
     map (\<lambda>(schema, v). safeParse schema v)
       (zip parts (map (at_index vals) [0..<length parts]))"
  by (rule nth_equalityI) (simp_all add: mapSafeParse_def nth_enumerate_eq)

lemma at_index_padded:
  "length vals \<le> n \<Longrightarrow>
     map (at_index vals) [0..<n] = map Str vals @ replicate (n - length vals) Undefined"
  by (rule nth_equalityI) (auto simp: at_index_def nth_append)

lemma mapSafeParse_padded:
  assumes "length unparsedValues \<le> length parts"
  shows "mapSafeParse parts unparsedValues =
     map (\<lambda>(schema, v). safeParse schema v)
       (zip parts (map Str unparsedValues @
          replicate (length parts - length unparsedValues) Undefined))"
  using assms by (simp add: mapSafeParse_zip at_index_padded)

text \<open>
  Claim C10. When the split of the validated input has fewer pieces than there are
  validators, no validator is skipped: the outcomes are those of the validators applied to
  the pieces followed by \<^verbatim>\<open>undefined\<close> once for every missing piece, so each validator at
  a position at or past the length of the split is applied to \<^verbatim>\<open>undefined\<close>, and what it
  makes of the missing value decides the result: when such a validator rejects it, the
  callback answers \<^verbatim>\<open>false\<close> without running the predicate.
\<close>

theorem mapSafeParse_missing_segments:
  assumes "length (splitIntoTemplateLiterals compositeValue delim) < length parts"
  shows "mapSafeParse parts (splitIntoTemplateLiterals compositeValue delim) =
           map (\<lambda>(schema, v). safeParse schema v)
             (zip parts (map Str (splitIntoTemplateLiterals compositeValue delim) @
                replicate (length parts - length (splitIntoTemplateLiterals compositeValue delim))
                  Undefined)) \<and>
         (\<forall>i. length (splitIntoTemplateLiterals compositeValue delim) \<le> i \<and> i < length parts \<longrightarrow>
            mapSafeParse parts (splitIntoTemplateLiterals compositeValue delim) ! i
              = safeParse (parts ! i) Undefined) \<and>
         ((\<exists>i. length (splitIntoTemplateLiterals compositeValue delim) \<le> i \<and> i < length parts \<and>
               \<not> success (safeParse (parts ! i) Undefined)) \<longrightarrow>
            refinement parts delim check compositeValue s = (Inr False, s))"
proof (intro conjI allI impI)
  let ?vals = "splitIntoTemplateLiterals compositeValue delim"
  from assms show "mapSafeParse parts ?vals =
      map (\<lambda>(schema, v). safeParse schema v)
        (zip parts (map Str ?vals @ replicate (length parts - length ?vals) Undefined))"
    by (intro mapSafeParse_padded) simp
  have beyond: "mapSafeParse parts ?vals ! i = safeParse (parts ! i) Undefined"
    if "length ?vals \<le> i \<and> i < length parts" for i
    using that by (simp add: mapSafeParse_def nth_enumerate_eq at_index_beyond)
  then show "\<And>i. length ?vals \<le> i \<and> i < length parts \<Longrightarrow>
      mapSafeParse parts ?vals ! i = safeParse (parts ! i) Undefined" .
  assume "\<exists>i. length ?vals \<le> i \<and> i < length parts \<and> \<not> success (safeParse (parts ! i) Undefined)"
  then obtain i where i: "length ?vals \<le> i \<and> i < length parts"
    and fails: "\<not> success (safeParse (parts ! i) Undefined)"
    by blast
  from beyond [OF i] fails have "\<not> success (mapSafeParse parts ?vals ! i)" by simp
  moreover from i have "i < length (mapSafeParse parts ?vals)" by (simp add: mapSafeParse_zip)
  ultimately have "\<not> list_all success (mapSafeParse parts ?vals)"
    by (auto simp: list_all_length)
  then show "refinement parts delim check compositeValue s = (Inr False, s)"
    by (simp add: refinement_def Let_def)
qed

theorem mapSafeParse_missing_segments_witness:
  "splitIntoTemplateLiterals ''a'' [] = [''a''] \<and>
   mapSafeParse [StringSchema, StringSchema] (splitIntoTemplateLiterals ''a'' [])
     = [Success (Str ''a''), Failure ''expected string''] \<and>
   refinement [StringSchema, StringSchema] [] counting ''a'' 0 = (Inr False :: string + bool, 0) \<and>
   mapSafeParse [OptionalStringSchema, OptionalStringSchema] (splitIntoTemplateLiterals ''a'' [])
     = [Success (Str ''a''), Success Undefined] \<and>
   refinement [OptionalStringSchema, OptionalStringSchema] [] counting ''a'' 0
     = (Inr True :: string + bool, 1)"
proof -
  have short: "length (splitIntoTemplateLiterals ''a'' []) < length [StringSchema, StringSchema]"
    by code_simp
  have short': "length (splitIntoTemplateLiterals ''a'' [])
      < length [OptionalStringSchema, OptionalStringSchema]"
    by code_simp
  have split: "splitIntoTemplateLiterals ''a'' [] = [''a'']"
    by code_simp
  have missing: "\<not> success (safeParse (StringSchema :: string schema) Undefined)"
    by code_simp
  have opt: "safeParse OptionalStringSchema (Str ''a'') = Success (Str ''a'') \<and>
    safeParse OptionalStringSchema Undefined = Success Undefined"
    by code_simp
  have str: "safeParse StringSchema (Str ''a'') = Success (Str ''a'') \<and>
    safeParse StringSchema Undefined = Failure ''expected string''"
    by code_simp
  note a = mapSafeParse_missing_segments [OF short,
      where check = "counting :: jsval list \<Rightarrow> nat \<Rightarrow> (string + bool) \<times> nat" and s = 0]
  note b = mapSafeParse_missing_segments [OF short',
      where check = "counting :: jsval list \<Rightarrow> nat \<Rightarrow> (string + bool) \<times> nat" and s = 0]
  from a have 1: "mapSafeParse [StringSchema, StringSchema] (splitIntoTemplateLiterals ''a'' [])
     = [Success (Str ''a''), Failure ''expected string'']"
    by (simp add: split str)
  from a missing have 2:
    "refinement [StringSchema, StringSchema] [] counting ''a'' 0 = (Inr False :: string + bool, 0)"
    by (auto simp: split)
  from b have 3:
    "mapSafeParse [OptionalStringSchema, OptionalStringSchema] (splitIntoTemplateLiterals ''a'' [])
     = [Success (Str ''a''), Success Undefined]"
    by (simp add: split opt)
  have 4: "refinement [OptionalStringSchema, OptionalStringSchema] [] counting ''a'' 0
     = (Inr True :: string + bool, 1)"
    by code_simp
  from split 1 2 3 4 show ?thesis by (intro conjI)
qed

section \<open>Properties of the composite validator\<close>

text \<open>One validation call, by cases in the order in which the code decides them.\<close>

lemma refineTemplateLiteral_unfold:
  "refineTemplateLiteral parts delim check tp cp input s =
     (if \<not> matches (insertDelimiterIntoTuple (map Schema parts) (Literal delim)) input
      then (Inr (Failure (StructuralMismatch tp)), s)
      else if \<not> list_all success (mapSafeParse parts (splitIntoTemplateLiterals input delim))
      then (Inr (Failure (PredicateRejection cp)), s)
      else case check (map data (mapSafeParse parts (splitIntoTemplateLiterals input delim))) s of
             (Inl x, s') \<Rightarrow> (Inl x, s')
           | (Inr ok, s') \<Rightarrow>
               (Inr (if ok then Success input else Failure (PredicateRejection cp)), s'))"
  by (simp add: refineTemplateLiteral_def refine_def templateLiteral_def refinement_def Let_def)





text \<open>
  Claim C2, amended. For every input that passes structural matching and on which one or
  more per-segment outcomes are Failure, the composite validation fails, and its failure is
  the single failure configured for the predicate, the same as for a predicate rejection:
  it carries no per-segment error and no position.
\<close>

theorem refineTemplateLiteral_segment_failure:
  assumes "matches (insertDelimiterIntoTuple (map Schema parts) (Literal delim)) input"
    and "\<not> list_all success (mapSafeParse parts (splitIntoTemplateLiterals input delim))"
  shows "fst (refineTemplateLiteral parts delim check tp cp input s)
           = Inr (Failure (PredicateRejection cp))"
  using assms by (simp add: refineTemplateLiteral_unfold)

theorem refineTemplateLiteral_segment_failure_witness:
  "fst (refineTemplateLiteral [StringSchema, StringSchema] [] same_parts None (Some ''Should fail'')
     ''a'' ())
   = (Inr (Failure (PredicateRejection (Some ''Should fail'')))
        :: string + (string issue, string) ZodSafeParseResult)"
proof -
  have shape: "matches (insertDelimiterIntoTuple (map Schema [StringSchema, StringSchema])
      (Literal [])) ''a''"
    by code_simp
  have segments: "\<not> list_all success
      (mapSafeParse [StringSchema, StringSchema] (splitIntoTemplateLiterals ''a'' []))"
    by code_simp
  from refineTemplateLiteral_segment_failure [OF shape segments]
  show ?thesis .
qed

text \<open>
  Claim C2 as stated fails. With \<open>[String, String]\<close> and the empty delimiter, the
  empty input passes structural matching and splits into no piece, so both validators
  receive \<^verbatim>\<open>undefined\<close> and fail, each with its own error. The composite failure is
  the configured predicate failure, not the aggregate of the two errors with their
  positions. It is the very failure of \<open>''a''\<close>, where the second validator alone
  fails, and of \<open>''ab''\<close>, where every segment succeeds and the predicate of test 12
  rejects.
\<close>

theorem segment_errors_counterexample:
  "mapSafeParse [StringSchema, StringSchema] (splitIntoTemplateLiterals [] [])
     = [Failure ''expected string'', Failure ''expected string''] \<and>
   refineTemplateLiteral [StringSchema, StringSchema] [] same_parts None (Some ''Should fail'') [] ()
     = (Inr (Failure (PredicateRejection (Some ''Should fail'')))
          :: string + (string issue, string) ZodSafeParseResult, ()) \<and>
   refineTemplateLiteral [StringSchema, StringSchema] [] same_parts None (Some ''Should fail'') [] ()
     \<noteq> (Inr (Failure (SegmentValidationFailure
            [(0, ''expected string''), (1, ''expected string'')]))
          :: string + (string issue, string) ZodSafeParseResult, ()) \<and>
   mapSafeParse [StringSchema, StringSchema] (splitIntoTemplateLiterals ''a'' [])
     = [Success (Str ''a''), Failure ''expected string''] \<and>
   refineTemplateLiteral [StringSchema, StringSchema] [] same_parts None (Some ''Should fail'')
       ''a'' ()
     = (Inr (Failure (PredicateRejection (Some ''Should fail'')))
          :: string + (string issue, string) ZodSafeParseResult, ()) \<and>
   list_all success
     (mapSafeParse [StringSchema, StringSchema] (splitIntoTemplateLiterals ''ab'' [])) \<and>
   refineTemplateLiteral [StringSchema, StringSchema] [] same_parts None (Some ''Should fail'')
       ''ab'' ()
     = (Inr (Failure (PredicateRejection (Some ''Should fail'')))
          :: string + (string issue, string) ZodSafeParseResult, ())"
  by code_simp

text \<open>
  Claim C3, amended. With the two segment validators \<open>[String, String]\<close> and the delimiter
  \<open>''|''\<close>, the input \<open>''a|b|c''\<close> is split into the three pieces
  \<open>[''a'', ''b'', ''c'']\<close>; only the first two are validated, the third is ignored, and
  the result is what the predicate makes of \<open>(''a'', ''b'')\<close>: Success of \<open>''a|b|c''\<close>
  when it answers \<^verbatim>\<open>true\<close>. No validator receives an undefined segment.
\<close>

theorem pipe_in_data_ignored:
  "splitIntoTemplateLiterals ''a|b|c'' ''|'' = [''a'', ''b'', ''c''] \<and>
   mapSafeParse [StringSchema, StringSchema] (splitIntoTemplateLiterals ''a|b|c'' ''|'')
     = [Success (Str ''a''), Success (Str ''b'')] \<and>
   refineTemplateLiteral [StringSchema, StringSchema] ''|'' check tp cp ''a|b|c'' s
     = (case check [Str ''a'', Str ''b''] s of
          (Inl x, s') \<Rightarrow> (Inl x, s')
        | (Inr ok, s') \<Rightarrow>
            (Inr (if ok then Success ''a|b|c'' else Failure (PredicateRejection cp)), s'))"
proof -
  have split: "splitIntoTemplateLiterals ''a|b|c'' ''|'' = [''a'', ''b'', ''c'']"
    by code_simp
  have shape: "matches (insertDelimiterIntoTuple (map Schema [StringSchema, StringSchema])
      (Literal ''|'')) ''a|b|c''"
    by code_simp
  have results: "mapSafeParse [StringSchema, StringSchema] [''a'', ''b'', ''c'']
      = [Success (Str ''a''), Success (Str ''b'')]"
    by code_simp
  from shape results show ?thesis
    by (simp add: refineTemplateLiteral_unfold split)
qed

text \<open>
  Claim C3 as stated fails: with the predicate that always holds, the input
  \<open>''a|b|c''\<close>, three pieces against two validators, is a Success.
\<close>

theorem pipe_in_data_counterexample:
  "splitIntoTemplateLiterals ''a|b|c'' ''|'' = [''a'', ''b'', ''c''] \<and>
   length [StringSchema, StringSchema] = 2 \<and>
   refineTemplateLiteral [StringSchema, StringSchema] ''|'' always_true None None ''a|b|c'' ()
     = (Inr (Success ''a|b|c'') :: string + (string issue, string) ZodSafeParseResult, ())"
  by code_simp

text \<open>
  Claim C4. The validation call throws \<open>x\<close> exactly when the input passes structural
  matching, every segment succeeds and the predicate, run on the decoded tuple, throws
  \<open>x\<close>: what the predicate throws leaves the call unmodified instead of a Failure
  outcome, and nothing else makes the call throw. A structural mismatch, a failing segment
  and a predicate that answers \<^verbatim>\<open>false\<close> are each returned as a Failure outcome.
\<close>

theorem predicate_exception_propagates:
  "(fst (refineTemplateLiteral parts delim check tp cp input s) = Inl x \<longleftrightarrow>
      matches (insertDelimiterIntoTuple (map Schema parts) (Literal delim)) input \<and>
      list_all success (mapSafeParse parts (splitIntoTemplateLiterals input delim)) \<and>
      fst (check (map data (mapSafeParse parts (splitIntoTemplateLiterals input delim))) s)
        = Inl x) \<and>
   (\<not> matches (insertDelimiterIntoTuple (map Schema parts) (Literal delim)) input \<longrightarrow>
      fst (refineTemplateLiteral parts delim check tp cp input s)
        = Inr (Failure (StructuralMismatch tp))) \<and>
   (matches (insertDelimiterIntoTuple (map Schema parts) (Literal delim)) input \<and>
    \<not> list_all success (mapSafeParse parts (splitIntoTemplateLiterals input delim)) \<longrightarrow>
      fst (refineTemplateLiteral parts delim check tp cp input s)
        = Inr (Failure (PredicateRejection cp))) \<and>
   (matches (insertDelimiterIntoTuple (map Schema parts) (Literal delim)) input \<and>
    list_all success (mapSafeParse parts (splitIntoTemplateLiterals input delim)) \<and>
    fst (check (map data (mapSafeParse parts (splitIntoTemplateLiterals input delim))) s)
      = Inr False \<longrightarrow>
      fst (refineTemplateLiteral parts delim check tp cp input s)
        = Inr (Failure (PredicateRejection cp)))"
  by (auto simp: refineTemplateLiteral_unfold split: prod.splits sum.splits)

theorem predicate_exception_propagates_witness:
  "fst (refineTemplateLiteral [StringSchema] ''|'' (always_throws ''Custom validation error'')
          None (Some ''Should not see this'') ''test'' ())
     = (Inl ''Custom validation error'' :: string + (string issue, string) ZodSafeParseResult) \<and>
   fst (refineTemplateLiteral [StringSchema, StringSchema] ''|'' same_parts None
          (Some ''Should fail'') ''ab'' ())
     = (Inr (Failure (StructuralMismatch None))
          :: string + (string issue, string) ZodSafeParseResult) \<and>
   fst (refineTemplateLiteral [StringSchema, StringSchema] [] same_parts None
          (Some ''Should fail'') ''a'' ())
     = (Inr (Failure (PredicateRejection (Some ''Should fail'')))
          :: string + (string issue, string) ZodSafeParseResult) \<and>
   fst (refineTemplateLiteral [StringSchema, StringSchema] ''|'' same_parts None
          (Some ''Should fail'') ''a|b'' ())
     = (Inr (Failure (PredicateRejection (Some ''Should fail'')))
          :: string + (string issue, string) ZodSafeParseResult)"
proof -
  have thrown:
    "matches (insertDelimiterIntoTuple (map Schema [StringSchema]) (Literal ''|'')) ''test'' \<and>
     list_all success (mapSafeParse [StringSchema] (splitIntoTemplateLiterals ''test'' ''|'')) \<and>
     fst (always_throws ''Custom validation error''
            (map data (mapSafeParse [StringSchema] (splitIntoTemplateLiterals ''test'' ''|'')))
            ()) = (Inl ''Custom validation error'' :: string + bool)"
    by code_simp
  have shape: "\<not> matches (insertDelimiterIntoTuple (map Schema [StringSchema, StringSchema])
      (Literal ''|'')) ''ab''"
    by code_simp
  have segment:
    "matches (insertDelimiterIntoTuple (map Schema [StringSchema, StringSchema]) (Literal []))
       ''a'' \<and>
     \<not> list_all success
       (mapSafeParse [StringSchema, StringSchema] (splitIntoTemplateLiterals ''a'' []))"
    by code_simp
  have rejected:
    "matches (insertDelimiterIntoTuple (map Schema [StringSchema, StringSchema]) (Literal ''|''))
       ''a|b'' \<and>
     list_all success
       (mapSafeParse [StringSchema, StringSchema] (splitIntoTemplateLiterals ''a|b'' ''|'')) \<and>
     fst (same_parts
       (map data (mapSafeParse [StringSchema, StringSchema] (splitIntoTemplateLiterals ''a|b'' ''|'')))
       ()) = (Inr False :: string + bool)"
    by code_simp
  note inst = predicate_exception_propagates
    [where parts = "[StringSchema, StringSchema]"
       and check = "same_parts :: jsval list \<Rightarrow> unit \<Rightarrow> (string + bool) \<times> unit"
       and s = "()" and tp = None and cp = "Some ''Should fail''"]
  from predicate_exception_propagates
    [where parts = "[StringSchema]" and delim = "''|''" and input = "''test''"
       and check = "always_throws ''Custom validation error''
         :: jsval list \<Rightarrow> unit \<Rightarrow> (string + bool) \<times> unit"
       and s = "()" and x = "''Custom validation error''"
       and tp = None and cp = "Some ''Should not see this''"]
    thrown
  have 1: "fst (refineTemplateLiteral [StringSchema] ''|''
          (always_throws ''Custom validation error'')
          None (Some ''Should not see this'') ''test'' ())
     = (Inl ''Custom validation error'' :: string + (string issue, string) ZodSafeParseResult)"
    by blast
  from inst [where delim = "''|''" and input = "''ab''"] shape
  have 2: "fst (refineTemplateLiteral [StringSchema, StringSchema] ''|'' same_parts None
          (Some ''Should fail'') ''ab'' ())
     = (Inr (Failure (StructuralMismatch None))
          :: string + (string issue, string) ZodSafeParseResult)"
    by blast
  from inst [where delim = "[]" and input = "''a''"] segment
  have 3: "fst (refineTemplateLiteral [StringSchema, StringSchema] [] same_parts None
          (Some ''Should fail'') ''a'' ())
     = (Inr (Failure (PredicateRejection (Some ''Should fail'')))
          :: string + (string issue, string) ZodSafeParseResult)"
    by blast
  from inst [where delim = "''|''" and input = "''a|b''"] rejected
  have 4: "fst (refineTemplateLiteral [StringSchema, StringSchema] ''|'' same_parts None
          (Some ''Should fail'') ''a|b'' ())
     = (Inr (Failure (PredicateRejection (Some ''Should fail'')))
          :: string + (string issue, string) ZodSafeParseResult)"
    by blast
  from 1 2 3 4 show ?thesis by (intro conjI)
qed

text \<open>
  Claim C5. When structural matching fails or any segment fails its own validation, the
  predicate is not invoked: whatever the predicate is, the call returns a Failure that does
  not depend on it and leaves the caller's state as it was, so that a predicate that counts
  its invocations has counted none.
\<close>

theorem predicate_not_invoked:
  assumes "\<not> matches (insertDelimiterIntoTuple (map Schema parts) (Literal delim)) input \<or>
           \<not> list_all success (mapSafeParse parts (splitIntoTemplateLiterals input delim))"
  shows "refineTemplateLiteral parts delim check tp cp input s =
           (Inr (Failure
              (if matches (insertDelimiterIntoTuple (map Schema parts) (Literal delim)) input
               then PredicateRejection cp else StructuralMismatch tp)), s)"
  using assms by (auto simp: refineTemplateLiteral_unfold)

theorem predicate_not_invoked_witness:
  "snd (refineTemplateLiteral [StringSchema, StringSchema] [] counting None None ''a'' 0
          :: (string + (string issue, string) ZodSafeParseResult) \<times> nat) = 0 \<and>
   snd (refineTemplateLiteral [StringSchema, StringSchema] ''|'' counting None None ''ab'' 0
          :: (string + (string issue, string) ZodSafeParseResult) \<times> nat) = 0 \<and>
   snd (refineTemplateLiteral [StringSchema, StringSchema] ''|'' counting None None ''a|b'' 0
          :: (string + (string issue, string) ZodSafeParseResult) \<times> nat) = 1"
proof -
  have segment: "\<not> list_all success
      (mapSafeParse [StringSchema, StringSchema] (splitIntoTemplateLiterals ''a'' []))"
    by code_simp
  have shape: "\<not> matches (insertDelimiterIntoTuple (map Schema [StringSchema, StringSchema])
      (Literal ''|'')) ''ab''"
    by code_simp
  note inst = predicate_not_invoked
    [where parts = "[StringSchema, StringSchema]"
       and check = "counting :: jsval list \<Rightarrow> nat \<Rightarrow> (string + bool) \<times> nat"
       and s = 0 and tp = None and cp = None]
  from inst [where delim = "[]" and input = "''a''"] segment
  have 1: "snd (refineTemplateLiteral [StringSchema, StringSchema] [] counting None None ''a'' 0
          :: (string + (string issue, string) ZodSafeParseResult) \<times> nat) = 0"
    by simp
  from inst [where delim = "''|''" and input = "''ab''"] shape
  have 2: "snd (refineTemplateLiteral [StringSchema, StringSchema] ''|'' counting None None ''ab'' 0
          :: (string + (string issue, string) ZodSafeParseResult) \<times> nat) = 0"
    by simp
  have 3: "snd (refineTemplateLiteral [StringSchema, StringSchema] ''|'' counting None None
          ''a|b'' 0
          :: (string + (string issue, string) ZodSafeParseResult) \<times> nat) = 1"
    by code_simp
  from 1 2 3 show ?thesis by (intro conjI)
qed

section \<open>Joining and validating\<close>

text \<open>Raw texts that have the shapes of the validators, joined, have the shape of the template.\<close>

lemma template_Cons2:
  "insertDelimiterIntoTuple (map Schema (p # q # ps)) (Literal d) =
     Schema p # Literal d # insertDelimiterIntoTuple (map Schema (q # ps)) (Literal d)"
  by (simp add: insertDelimiterIntoTuple_Cons)

lemma matches_Schema:
  assumes "pattern p r" and "matches ps rest"
  shows "matches (Schema p # ps) (r @ rest)"
proof -
  have "length r \<in> set [0..<Suc (length (r @ rest))]" by simp
  moreover have "pattern p (take (length r) (r @ rest)) \<and> matches ps (drop (length r) (r @ rest))"
    using assms by simp
  ultimately show ?thesis
    unfolding matches.simps list_ex_iff by blast
qed

lemma matches_join:
  assumes "list_all2 (\<lambda>p r. pattern p r) parts raws"
  shows "matches (insertDelimiterIntoTuple (map Schema parts) (Literal d))
           (concat (insertDelimiterIntoTuple raws d))"
  using assms
proof (induction parts arbitrary: raws rule: induct_list012)
  case 1
  then show ?case by (simp add: insertDelimiterIntoTuple_Nil)
next
  case (2 p)
  then obtain r where r: "raws = [r]" "pattern p r"
    by (auto simp: list_all2_Cons1)
  from matches_Schema [OF r(2), of "[]" "[]"] show ?case
    by (simp add: r(1) insertDelimiterIntoTuple_Cons)
next
  case (3 p q ps)
  then obtain r t ts where raws: "raws = r # t # ts" and r: "pattern p r"
    and rest: "list_all2 (\<lambda>p r. pattern p r) (q # ps) (t # ts)"
    by (auto simp: list_all2_Cons1)
  let ?tail = "concat (insertDelimiterIntoTuple (t # ts) d)"
  from 3(2) [OF rest]
  have "matches (insertDelimiterIntoTuple (map Schema (q # ps)) (Literal d)) ?tail" .
  then have "matches (Literal d # insertDelimiterIntoTuple (map Schema (q # ps)) (Literal d))
      (d @ ?tail)"
    by simp
  from matches_Schema [OF r this] show ?case
    unfolding raws by (simp only: template_Cons2 join_Cons2)
qed

lemma mapSafeParse_exact:
  assumes "length raws = length parts"
  shows "mapSafeParse parts raws = map (\<lambda>(p, r). safeParse p (Str r)) (zip parts raws)"
proof -
  have "map (\<lambda>(schema, v). safeParse schema v) (zip parts (map Str raws)) =
        map (\<lambda>(p, r). safeParse p (Str r)) (zip parts raws)"
    by (simp add: zip_map2 case_prod_unfold)
  with mapSafeParse_padded [of raws parts] assms show ?thesis by simp
qed

text \<open>
  Claim C7, amended. For every list of raw texts, one for each validator, each of the shape
  of its validator and accepted by it, none of which contains the delimiter, and none of
  which but the last contains it when continued by all but the last character of the
  delimiter (this adds nothing for a delimiter of one character): the joined string passes
  structural matching, every validator succeeds on its piece, and validation recovers
  exactly the original decoded values, as the tuple it computes and hands to the predicate;
  and when the list is not empty, or the delimiter is, splitting the joined string
  recovers exactly the original raw texts.
\<close>

theorem join_then_validate:
  assumes "list_all2 (\<lambda>p r. pattern p r \<and> success (safeParse p (Str r))) parts raws"
    and "\<forall>r \<in> set raws. \<not> sublist delim r"
    and "\<forall>r \<in> set (butlast raws). \<not> sublist delim (r @ butlast delim)"
  shows "(raws \<noteq> [] \<or> delim = [] \<longrightarrow>
            splitIntoTemplateLiterals (concat (insertDelimiterIntoTuple raws delim)) delim = raws) \<and>
         matches (insertDelimiterIntoTuple (map Schema parts) (Literal delim))
           (concat (insertDelimiterIntoTuple raws delim)) \<and>
         list_all success (mapSafeParse parts
           (splitIntoTemplateLiterals (concat (insertDelimiterIntoTuple raws delim)) delim)) \<and>
         map data (mapSafeParse parts
             (splitIntoTemplateLiterals (concat (insertDelimiterIntoTuple raws delim)) delim))
           = map (\<lambda>(p, r). data (safeParse p (Str r))) (zip parts raws) \<and>
         refinement parts delim check (concat (insertDelimiterIntoTuple raws delim)) s
           = check (map (\<lambda>(p, r). data (safeParse p (Str r))) (zip parts raws)) s"
proof -
  let ?joined = "concat (insertDelimiterIntoTuple raws delim)"
  let ?pieces = "splitIntoTemplateLiterals ?joined delim"
  have len: "length raws = length parts"
    using assms(1) by (simp add: list_all2_lengthD)
  have "list_all2 (\<lambda>p r. pattern p r) parts raws"
    using assms(1) by (rule list_all2_mono) simp
  then have shape: "matches (insertDelimiterIntoTuple (map Schema parts) (Literal delim)) ?joined"
    by (rule matches_join)
  have split: "?pieces = raws" if "raws \<noteq> [] \<or> delim = []"
  proof (cases "raws = []")
    case True
    with that show ?thesis
      by (simp add: splitIntoTemplateLiterals_def insertDelimiterIntoTuple_Nil)
  next
    case False
    then have "last raws \<in> set raws" by simp
    with assms(2) have final: "\<not> sublist delim (last raws)" by blast
    then have ne: "delim \<noteq> []" by auto
    from splitLoop_unique [OF ne False assms(3) final] ne show ?thesis
      by (simp add: splitIntoTemplateLiterals_def)
  qed
  have results: "mapSafeParse parts ?pieces = map (\<lambda>(p, r). safeParse p (Str r)) (zip parts raws)"
  proof (cases "raws = []")
    case True
    with len show ?thesis by (simp add: mapSafeParse_def)
  next
    case False
    with split have "?pieces = raws" by simp
    with mapSafeParse_exact [OF len] show ?thesis by simp
  qed
  have "\<forall>(p, r) \<in> set (zip parts raws). success (safeParse p (Str r))"
    using assms(1) by (auto simp: list_all2_iff)
  then have ok: "list_all success (mapSafeParse parts ?pieces)"
    unfolding results by (auto simp: list_all_iff)
  have decoded: "map data (mapSafeParse parts ?pieces)
      = map (\<lambda>(p, r). data (safeParse p (Str r))) (zip parts raws)"
    unfolding results by (simp add: case_prod_unfold)
  have "refinement parts delim check ?joined s
      = check (map (\<lambda>(p, r). data (safeParse p (Str r))) (zip parts raws)) s"
    using ok by (simp add: refinement_def Let_def decoded)
  with split shape ok decoded show ?thesis by blast
qed

theorem join_then_validate_witness:
  "splitIntoTemplateLiterals (concat (insertDelimiterIntoTuple [''a'', ''b-''] ''--'')) ''--''
     = [''a'', ''b-''] \<and>
   concat (insertDelimiterIntoTuple [''a'', ''b-''] ''--'') = ''a--b-'' \<and>
   map data (mapSafeParse [StringSchema, StringSchema] (splitIntoTemplateLiterals ''a--b-'' ''--''))
     = [Str ''a'', Str ''b-''] \<and>
   refinement [StringSchema, StringSchema] ''--'' counting ''a--b-'' 0
     = (Inr True :: string + bool, 1)"
proof -
  have each: "list_all2 (\<lambda>p r. pattern p r \<and> success (safeParse p (Str r)))
      [StringSchema, StringSchema] [''a'', ''b-'']"
    by (simp add: StringSchema_def)
  have free: "\<forall>r \<in> set [''a'', ''b-'']. \<not> sublist ''--'' r"
    by code_simp
  have straddle: "\<forall>r \<in> set (butlast [''a'', ''b-'']). \<not> sublist ''--'' (r @ butlast ''--'')"
    by code_simp
  have joined: "concat (insertDelimiterIntoTuple [''a'', ''b-''] ''--'') = ''a--b-''"
    by code_simp
  have decoded: "map (\<lambda>(p, r). data (safeParse p (Str r)))
      (zip [StringSchema, StringSchema] [''a'', ''b-'']) = [Str ''a'', Str ''b-'']"
    by code_simp
  have counted: "counting [Str ''a'', Str ''b-''] 0 = (Inr True :: string + bool, 1)"
    by code_simp
  note round = join_then_validate [OF each free straddle,
      where check = "counting :: jsval list \<Rightarrow> nat \<Rightarrow> (string + bool) \<times> nat" and s = 0,
      unfolded joined decoded counted]
  from round have 1: "splitIntoTemplateLiterals ''a--b-'' ''--'' = [''a'', ''b-'']"
    by simp
  from round have 2: "map data (mapSafeParse [StringSchema, StringSchema]
      (splitIntoTemplateLiterals ''a--b-'' ''--'')) = [Str ''a'', Str ''b-'']"
    by blast
  from round have 3: "refinement [StringSchema, StringSchema] ''--'' counting ''a--b-'' 0
     = (Inr True :: string + bool, 1)"
    by blast
  from 1 joined 2 3 show ?thesis by (simp only: simp_thms)
qed

text \<open>
  Claim C7 as stated fails. Neither \<open>''a''\<close> nor \<open>''x''\<close> contains the delimiter
  \<open>''aa''\<close>, and both are accepted by the string validator; joined they are
  \<open>''aaax''\<close>, where the delimiter occurs first at the start, so the split is
  \<open>['''', ''ax'']\<close> and these are the values decoded. And the empty list of raw texts
  joins to the empty string, whose split on \<open>'',''\<close> is one empty piece.
\<close>

theorem round_trip_counterexample:
  "\<not> sublist ''aa'' ''a'' \<and> \<not> sublist ''aa'' ''x'' \<and>
   pattern StringSchema ''a'' \<and> safeParse StringSchema (Str ''a'') = Success (Str ''a'') \<and>
   pattern StringSchema ''x'' \<and> safeParse StringSchema (Str ''x'') = Success (Str ''x'') \<and>
   concat (insertDelimiterIntoTuple [''a'', ''x''] ''aa'') = ''aaax'' \<and>
   splitIntoTemplateLiterals ''aaax'' ''aa'' = ['''', ''ax''] \<and>
   splitIntoTemplateLiterals ''aaax'' ''aa'' \<noteq> [''a'', ''x''] \<and>
   map data (mapSafeParse [StringSchema, StringSchema] (splitIntoTemplateLiterals ''aaax'' ''aa''))
     = [Str '''', Str ''ax''] \<and>
   map data (mapSafeParse [StringSchema, StringSchema] (splitIntoTemplateLiterals ''aaax'' ''aa''))
     \<noteq> [Str ''a'', Str ''x''] \<and>
   concat (insertDelimiterIntoTuple ([] :: string list) '','') = '''' \<and>
   splitIntoTemplateLiterals '''' '','' = [''''] \<and>
   splitIntoTemplateLiterals '''' '','' \<noteq> []"
  by code_simp

end
